theory Spec2Isabelle
  imports Complex_Main "HOL-Library.Word" "HOL-Library.Multiset"
begin

section \<open>The chat component of src/App.jsx\<close>

text \<open>
  The repository is one React function component, \<^verbatim>\<open>ChatApp\<close>. Its behaviour lives in
  two effects (Firebase initialisation with the auth observer, and the Firestore feed
  subscription), in the snapshot callback that sorts the feed, and in \<^verbatim>\<open>handleSend\<close>.
  The component is event driven and single threaded, so it is embedded as a state record
  and one function per callback; the environment (Firebase, the user) chooses the events.
\<close>

subsection \<open>JavaScript strings\<close>

text \<open>
  A JavaScript string is a sequence of UTF-16 code units. \<^verbatim>\<open>String.prototype.trim\<close>
  removes leading and trailing code units that are WhiteSpace or LineTerminator in
  ECMAScript (TAB, LF, VT, FF, CR, SP, NBSP, U+1680, U+2000..U+200A, LS, PS, U+202F,
  U+205F, U+3000, BOM).
\<close>

type_synonym jsstring = "16 word list"

definition utf16 :: "string \<Rightarrow> jsstring" where
  "utf16 s = map of_char s"

definition isWhiteSpace :: "16 word \<Rightarrow> bool" where
  "isWhiteSpace c \<longleftrightarrow>
     c = 0x9 \<or> c = 0xA \<or> c = 0xB \<or> c = 0xC \<or> c = 0xD \<or> c = 0x20 \<or> c = 0xA0 \<or>
     c = 0x1680 \<or> (0x2000 \<le> c \<and> c \<le> 0x200A) \<or> c = 0x2028 \<or> c = 0x2029 \<or>
     c = 0x202F \<or> c = 0x205F \<or> c = 0x3000 \<or> c = 0xFEFF"

definition trim :: "jsstring \<Rightarrow> jsstring" where
  "trim s = rev (dropWhile isWhiteSpace (rev (dropWhile isWhiteSpace s)))"

text \<open>
  Truthiness of a value that is \<^verbatim>\<open>null\<close>/\<^verbatim>\<open>undefined\<close> (\<open>None\<close>) or a string: only a
  non-empty string is truthy. This is the test behind \<^verbatim>\<open>!userId\<close>, \<^verbatim>\<open>if (token)\<close> and
  \<^verbatim>\<open>x || null\<close>.
\<close>

definition truthy :: "jsstring option \<Rightarrow> bool" where
  "truthy v = (case v of None \<Rightarrow> False | Some s \<Rightarrow> s \<noteq> [])"

subsection \<open>Documents of the feed and the client-side sort\<close>

text \<open>
  The \<^verbatim>\<open>timestamp\<close> field of a document as the comparator sees it:
  \<^verbatim>\<open>a.timestamp?.toMillis ? a.timestamp.toMillis() : 0\<close>. The field is missing or
  \<^verbatim>\<open>null\<close> (a server timestamp that is still pending), or a Firestore Timestamp whose
  \<^verbatim>\<open>toMillis()\<close> is the given number of milliseconds, or some other value that has no
  \<^verbatim>\<open>toMillis\<close> member (a number, a string). \<^verbatim>\<open>toMillis()\<close> returns a JavaScript
  number, seconds * 1000 + nanoseconds / 1e6, which need not be whole; it is modelled by
  the real number it denotes. The sort uses \<^verbatim>\<open>ta - tb\<close> only through its sign, and the
  sign of the floating-point difference of two finite numbers is the sign of their exact
  difference.
\<close>

datatype ts_field = TsMissing | TsTimestamp real | TsOther

text \<open>The fields of \<^verbatim>\<open>d.data()\<close> that the component reads, and a query document.\<close>

record fields =
  f_text :: "jsstring option"
  f_userId :: "jsstring option"
  f_timestamp :: ts_field

record qdoc =
  d_id :: jsstring
  d_data :: fields

text \<open>The object pushed by the snapshot callback: \<^verbatim>\<open>{ id: d.id, ...data }\<close>.\<close>

record message =
  doc_id :: jsstring
  doc_text :: "jsstring option"
  doc_userId :: "jsstring option"
  doc_timestamp :: ts_field

definition toDoc :: "qdoc \<Rightarrow> message" where
  "toDoc d = \<lparr> doc_id = d_id d, doc_text = f_text (d_data d),
               doc_userId = f_userId (d_data d), doc_timestamp = f_timestamp (d_data d) \<rparr>"

text \<open>\<^verbatim>\<open>snap.forEach((d) => docs.push(...))\<close> visits the snapshot in its own order.\<close>

definition collectDocs :: "qdoc list \<Rightarrow> message list" where
  "collectDocs snap = map toDoc snap"

definition millisOr0 :: "message \<Rightarrow> real" where
  "millisOr0 a = (case doc_timestamp a of TsTimestamp ms \<Rightarrow> ms | _ \<Rightarrow> 0)"

text \<open>The comparator of line 127: \<^verbatim>\<open>(a, b) => ta - tb\<close>.\<close>

definition compareDocs :: "message \<Rightarrow> message \<Rightarrow> real" where
  "compareDocs a b = millisOr0 a - millisOr0 b"

text \<open>
  \<^verbatim>\<open>Array.prototype.sort(cmp)\<close> as ECMAScript (2019 and later) specifies it for a
  consistent comparator: a stable sort in which \<open>x\<close> stays in front of a later \<open>y\<close>
  unless \<open>cmp x y > 0\<close>. It is written as an insertion sort that takes the elements
  from the right, so that an element is only ever moved behind elements that followed it.
\<close>

fun sortInsert :: "('a \<Rightarrow> 'a \<Rightarrow> real) \<Rightarrow> 'a \<Rightarrow> 'a list \<Rightarrow> 'a list" where
  "sortInsert cmp x [] = [x]"
| "sortInsert cmp x (y # ys) =
     (if cmp x y \<le> 0 then x # y # ys else y # sortInsert cmp x ys)"

definition arraySort :: "('a \<Rightarrow> 'a \<Rightarrow> real) \<Rightarrow> 'a list \<Rightarrow> 'a list" where
  "arraySort cmp xs = foldr (sortInsert cmp) xs []"

text \<open>The Ordering Policy: \<^verbatim>\<open>docs.sort((a, b) => ...)\<close>.\<close>

definition sortDocs :: "message list \<Rightarrow> message list" where
  "sortDocs docs = arraySort compareDocs docs"

text \<open>
  The order the specification describes: position \<open>i\<close> of the incoming array comes
  before position \<open>j\<close> when its key is smaller, or the keys are equal and \<open>i < j\<close>.
\<close>

definition keyThenIndex :: "message list \<Rightarrow> nat \<Rightarrow> nat \<Rightarrow> bool" where
  "keyThenIndex docs i j \<longleftrightarrow>
     millisOr0 (docs ! i) < millisOr0 (docs ! j) \<or>
     (millisOr0 (docs ! i) = millisOr0 (docs ! j) \<and> i < j)"

subsection \<open>Process-start configuration and sign-in\<close>

text \<open>
  \<^verbatim>\<open>window\<close> may be undefined (\<open>None\<close>); \<^verbatim>\<open>window.__initial_auth_token\<close> may be
  undefined (\<open>None\<close>) or a string.
\<close>

record window =
  initial_auth_token :: "jsstring option"

definition getInitialAuthToken :: "window option \<Rightarrow> jsstring option" where
  "getInitialAuthToken w =
     (case w of
        None \<Rightarrow> None
      | Some win \<Rightarrow> (if truthy (initial_auth_token win) then initial_auth_token win else None))"

datatype sign_in = SignInWithCustomToken jsstring | SignInAnonymously

text \<open>The call that \<^verbatim>\<open>doAuth\<close> makes: \<^verbatim>\<open>if (token) ... else ...\<close>.\<close>

definition doAuthCall :: "jsstring option \<Rightarrow> sign_in" where
  "doAuthCall tok =
     (case tok of
        None \<Rightarrow> SignInAnonymously
      | Some t \<Rightarrow> (if t \<noteq> [] then SignInWithCustomToken t else SignInAnonymously))"

subsection \<open>Component state\<close>

text \<open>
  \<^verbatim>\<open>status\<close> holds one of four strings; they are the session phases of the
  specification.
\<close>

datatype status = Connecting | AuthRequired | Online | InitError

fun statusText :: "status \<Rightarrow> string" where
  "statusText Connecting = ''Connecting...''"
| "statusText AuthRequired = ''Auth required''"
| "statusText Online = ''Online''"
| "statusText InitError = ''Init error''"

datatype app = FirebaseApp
datatype firestore = Firestore

text \<open>What \<^verbatim>\<open>addDoc\<close> is given. The timestamp is either the \<^verbatim>\<open>serverTimestamp()\<close>
  sentinel or a value chosen by the client.\<close>

datatype ts_request = ServerTimestamp | ClientTimestamp real

record payload =
  w_text :: jsstring
  w_userId :: jsstring
  w_timestamp :: ts_request

datatype console_entry =
  AuthErrorLog | InitErrorLog | SnapshotErrorLog | SubscribeErrorLog | SendErrorLog

text \<open>
  The state: the five \<^verbatim>\<open>useState\<close> cells, the refs, what the effects' closures hold
  (\<open>token\<close>, whether the auth observer is registered, whether the last run of the
  subscription effect returned a cleanup), and the effects on the outside world that the
  claims speak about: the feed listeners that are live in the document store (each
  \<^verbatim>\<open>onSnapshot\<close> call creates a fresh one; the unsubscribe function it returns is
  identified with the listener's number), the sign-in calls made, the writes issued, the
  promises still pending, and the lines written with \<^verbatim>\<open>console.error\<close>.
\<close>

record chat =
  userId :: "jsstring option"
  isAuthReady :: bool
  messages :: "message list"
  newMessage :: jsstring
  status :: status
  appRef :: "app option"
  dbRef :: "firestore option"
  unsubRef :: "nat option"
  token :: "jsstring option"
  authObserver :: bool
  subCleanup :: bool
  mounted :: bool
  listeners :: "nat set"
  nextListener :: nat
  signIns :: "sign_in list"
  pendingSignIns :: nat
  writes :: "payload list"
  pendingWrites :: nat
  console :: "console_entry list"

definition initial :: chat where
  "initial = \<lparr> userId = None, isAuthReady = False, messages = [], newMessage = [],
               status = Connecting, appRef = None, dbRef = None, unsubRef = None,
               token = None, authObserver = False, subCleanup = False, mounted = True,
               listeners = {}, nextListener = 0, signIns = [], pendingSignIns = 0,
               writes = [], pendingWrites = 0, console = [] \<rparr>"

definition logged :: "console_entry \<Rightarrow> chat \<Rightarrow> chat" where
  "logged e s = s\<lparr> console := console s @ [e] \<rparr>"

subsection \<open>The initialisation effect (lines 68 to 108)\<close>

text \<open>
  \<^verbatim>\<open>doAuth\<close> starts a sign-in; the promise settles later (\<open>signInSettled\<close>), and a
  rejection is caught and logged inside \<^verbatim>\<open>doAuth\<close>.
\<close>

definition doAuth :: "chat \<Rightarrow> chat" where
  "doAuth s = s\<lparr> signIns := signIns s @ [doAuthCall (token s)],
                 pendingSignIns := Suc (pendingSignIns s) \<rparr>"

definition signInSettled :: "bool \<Rightarrow> chat \<Rightarrow> chat" where
  "signInSettled ok s =
     (if pendingSignIns s = 0 then s
      else (if ok then s\<lparr> pendingSignIns := pendingSignIns s - 1 \<rparr>
            else logged AuthErrorLog (s\<lparr> pendingSignIns := pendingSignIns s - 1 \<rparr>)))"

text \<open>
  The effect body at mount. Firebase may throw from \<^verbatim>\<open>initializeApp\<close> (before
  \<^verbatim>\<open>appRef.current\<close> is assigned) or from \<^verbatim>\<open>getAuth\<close> (after it); the
  \<^verbatim>\<open>catch\<close> logs and sets the status. Otherwise the observer is registered and
  \<^verbatim>\<open>doAuth()\<close> is called at once. The subscription effect also runs at mount and
  returns at its guard, since \<^verbatim>\<open>isAuthReady\<close> is false.
\<close>

datatype init_outcome = InitOk | InitializeAppThrew | GetAuthThrew

definition mount :: "window option \<Rightarrow> init_outcome \<Rightarrow> chat" where
  "mount w io =
     (case io of
        InitializeAppThrew \<Rightarrow> (logged InitErrorLog initial)\<lparr> status := InitError \<rparr>
      | GetAuthThrew \<Rightarrow>
          (logged InitErrorLog (initial\<lparr> appRef := Some FirebaseApp \<rparr>))\<lparr> status := InitError \<rparr>
      | InitOk \<Rightarrow>
          doAuth (initial\<lparr> appRef := Some FirebaseApp, token := getInitialAuthToken w,
                           authObserver := True \<rparr>))"

text \<open>
  The \<^verbatim>\<open>onAuthStateChanged\<close> callback. The three setters of the first branch are
  called in one tick and React 18 (\<^verbatim>\<open>createRoot\<close>) commits them in one render.
\<close>

definition onAuthStateChangedCb :: "jsstring option \<Rightarrow> chat \<Rightarrow> chat" where
  "onAuthStateChangedCb user s =
     (case user of
        Some uid \<Rightarrow> s\<lparr> userId := Some uid, isAuthReady := True, status := Online \<rparr>
      | None \<Rightarrow> doAuth (s\<lparr> status := AuthRequired \<rparr>))"

subsection \<open>The subscription effect (lines 110 to 145)\<close>

text \<open>\<^verbatim>\<open>unsubRef.current && unsubRef.current()\<close>: releasing a listener that is no longer
  live changes nothing.\<close>

definition release :: "chat \<Rightarrow> chat" where
  "release s =
     (case unsubRef s of
        None \<Rightarrow> s
      | Some i \<Rightarrow> s\<lparr> listeners := listeners s - {i} \<rparr>)"

text \<open>\<^verbatim>\<open>unsubRef.current = onSnapshot(...)\<close>.\<close>

definition openListener :: "chat \<Rightarrow> chat" where
  "openListener s =
     s\<lparr> listeners := insert (nextListener s) (listeners s),
        unsubRef := Some (nextListener s),
        nextListener := Suc (nextListener s) \<rparr>"

text \<open>
  Firebase may throw inside the \<^verbatim>\<open>try\<close>: from \<^verbatim>\<open>getFirestore\<close> (nothing assigned
  yet) or from \<^verbatim>\<open>onSnapshot\<close> (after the previous listener was released).
  \<^verbatim>\<open>collection(db, path)\<close> only builds a reference from the fixed five-segment path and
  is taken to return.
\<close>

datatype subscribe_outcome = Subscribed | GetFirestoreThrew | OnSnapshotThrew

definition subscriptionEffect :: "subscribe_outcome \<Rightarrow> chat \<Rightarrow> chat" where
  "subscriptionEffect fx s =
     (if \<not> isAuthReady s \<or> \<not> truthy (userId s) then s\<lparr> subCleanup := False \<rparr>
      else
        (case fx of
           GetFirestoreThrew \<Rightarrow> logged SubscribeErrorLog s
         | OnSnapshotThrew \<Rightarrow> logged SubscribeErrorLog (release (s\<lparr> dbRef := Some Firestore \<rparr>))
         | Subscribed \<Rightarrow> openListener (release (s\<lparr> dbRef := Some Firestore \<rparr>)))
        \<lparr> subCleanup := True \<rparr>)"

definition subscriptionCleanup :: "chat \<Rightarrow> chat" where
  "subscriptionCleanup s = (if subCleanup s then release s else s)"

text \<open>
  React runs the effect again after a render in which one of its dependencies
  \<^verbatim>\<open>[isAuthReady, userId, collectionPath]\<close> differs from the previous render, the
  previous cleanup first. \<^verbatim>\<open>collectionPath\<close> is a constant.
\<close>

definition depsChanged :: "chat \<Rightarrow> chat \<Rightarrow> bool" where
  "depsChanged old new \<longleftrightarrow> isAuthReady new \<noteq> isAuthReady old \<or> userId new \<noteq> userId old"

definition commit :: "subscribe_outcome \<Rightarrow> chat \<Rightarrow> chat \<Rightarrow> chat" where
  "commit fx old new =
     (if depsChanged old new then subscriptionEffect fx (subscriptionCleanup new) else new)"

text \<open>The snapshot callback (lines 120 to 133) and the error callback.\<close>

definition onSnapshotCb :: "qdoc list \<Rightarrow> chat \<Rightarrow> chat" where
  "onSnapshotCb snap s = s\<lparr> messages := sortDocs (collectDocs snap) \<rparr>"

definition onSnapshotErrorCb :: "chat \<Rightarrow> chat" where
  "onSnapshotErrorCb s = logged SnapshotErrorLog s"

subsection \<open>The composer (lines 154 to 168)\<close>

text \<open>
  \<^verbatim>\<open>handleSend\<close> up to its \<^verbatim>\<open>await\<close>: the two guards, then the \<^verbatim>\<open>addDoc\<close> call.
  \<open>None\<close> is an early return.
\<close>

definition sendPayload :: "chat \<Rightarrow> payload option" where
  "sendPayload s =
     (if dbRef s = None \<or> \<not> truthy (userId s) then None
      else
        (let txt = trim (newMessage s) in
         if txt = [] then None
         else
           (case userId s of
              None \<Rightarrow> None
            | Some uid \<Rightarrow> Some \<lparr> w_text = txt, w_userId = uid, w_timestamp = ServerTimestamp \<rparr>)))"

definition handleSend :: "chat \<Rightarrow> chat" where
  "handleSend s =
     (case sendPayload s of
        None \<Rightarrow> s
      | Some w \<Rightarrow> s\<lparr> writes := writes s @ [w], pendingWrites := Suc (pendingWrites s) \<rparr>)"

text \<open>
  The rest of \<^verbatim>\<open>handleSend\<close>, run when the \<^verbatim>\<open>addDoc\<close> promise settles:
  \<^verbatim>\<open>setNewMessage('')\<close> after a success, \<^verbatim>\<open>console.error\<close> after a rejection.
\<close>

definition addDocSettled :: "bool \<Rightarrow> chat \<Rightarrow> chat" where
  "addDocSettled ok s =
     (if pendingWrites s = 0 then s
      else (if ok then s\<lparr> pendingWrites := pendingWrites s - 1, newMessage := [] \<rparr>
            else logged SendErrorLog (s\<lparr> pendingWrites := pendingWrites s - 1 \<rparr>)))"

text \<open>\<^verbatim>\<open>isSendDisabled\<close> of line 170, which disables the button only.\<close>

definition isSendDisabled :: "chat \<Rightarrow> bool" where
  "isSendDisabled s \<longleftrightarrow> \<not> isAuthReady s \<or> \<not> truthy (userId s) \<or> length (trim (newMessage s)) = 0"

subsection \<open>Events\<close>

text \<open>
  What can happen to a mounted component. The auth observer calls back only while it is
  registered, a listener only while it is live, a promise settles only while it is
  pending. \<open>Send\<close> is a call of \<^verbatim>\<open>handleSend\<close> (the button, or Enter in the input,
  which does not look at \<^verbatim>\<open>isSendDisabled\<close>). Unmounting runs both cleanups; nothing
  reaches the component afterwards.
\<close>

datatype event =
  AuthStateChanged "jsstring option" subscribe_outcome
| SignInSettled bool
| Snapshot nat "qdoc list"
| SnapshotError nat
| Typed jsstring
| Send
| AddDocSettled bool
| Unmount

fun handle :: "event \<Rightarrow> chat \<Rightarrow> chat" where
  "handle (AuthStateChanged user fx) s =
     (if authObserver s then onAuthStateChangedCb user s else s)"
| "handle (SignInSettled ok) s = signInSettled ok s"
| "handle (Snapshot i snap) s = (if i \<in> listeners s then onSnapshotCb snap s else s)"
| "handle (SnapshotError i) s = (if i \<in> listeners s then onSnapshotErrorCb s else s)"
| "handle (Typed v) s = s\<lparr> newMessage := v \<rparr>"
| "handle Send s = handleSend s"
| "handle (AddDocSettled ok) s = addDocSettled ok s"
| "handle Unmount s = (subscriptionCleanup s)\<lparr> authObserver := False, mounted := False \<rparr>"

fun effectOutcome :: "event \<Rightarrow> subscribe_outcome" where
  "effectOutcome (AuthStateChanged user fx) = fx"
| "effectOutcome e = Subscribed"

definition step :: "event \<Rightarrow> chat \<Rightarrow> chat" where
  "step e s = (if mounted s then commit (effectOutcome e) s (handle e s) else s)"

definition run :: "window option \<Rightarrow> init_outcome \<Rightarrow> event list \<Rightarrow> chat" where
  "run w io es = foldl (\<lambda>s e. step e s) (mount w io) es"

subsection \<open>Invariants and sample runs\<close>

text \<open>The invariant of the session state that the specification names.\<close>

definition sessionInv :: "chat \<Rightarrow> bool" where
  "sessionInv s \<longleftrightarrow> (status s = Online \<longrightarrow> userId s \<noteq> None)"

text \<open>Before the first auth callback with a user, and after a failed initialisation,
  there is no identity.\<close>

definition idleInv :: "chat \<Rightarrow> bool" where
  "idleInv s \<longleftrightarrow> (status s = Connecting \<or> status s = InitError \<longrightarrow> userId s = None)"

text \<open>
  The live listeners are at most the one whose unsubscribe function \<^verbatim>\<open>unsubRef\<close> holds;
  while one is live the component is mounted and the effect has a cleanup registered;
  listener numbers below \<open>nextListener\<close> are the ones handed out so far.
\<close>

definition feedInv :: "chat \<Rightarrow> bool" where
  "feedInv s \<longleftrightarrow>
     listeners s \<subseteq> set_option (unsubRef s) \<and>
     (listeners s \<noteq> {} \<longrightarrow> subCleanup s \<and> mounted s) \<and>
     (\<forall>i \<in> listeners s. i < nextListener s)"

definition gateInv :: "chat \<Rightarrow> bool" where
  "gateInv s \<longleftrightarrow> (listeners s \<noteq> {} \<longrightarrow> isAuthReady s \<and> truthy (userId s))"

text \<open>The observer's closure holds the token read at mount, and every sign-in made so far
  is the one \<^verbatim>\<open>doAuth\<close> chooses for it.\<close>

definition authInv :: "window option \<Rightarrow> chat \<Rightarrow> bool" where
  "authInv w s \<longleftrightarrow>
     (authObserver s \<longrightarrow> token s = getInitialAuthToken w) \<and>
     set (signIns s) \<subseteq> {doAuthCall (getInitialAuthToken w)}"

definition writesInv :: "chat \<Rightarrow> bool" where
  "writesInv s \<longleftrightarrow>
     (\<forall>p \<in> set (writes s). w_timestamp p = ServerTimestamp \<and> w_text p \<noteq> [] \<and> w_userId p \<noteq> [])"

text \<open>Sample runs: a visitor who is signed in anonymously as \<open>abc12345\<close>, and the same
  session after the provider has reported that the identity is gone and the visitor has
  typed \<open>hi\<close>.\<close>

definition visitor :: jsstring where
  "visitor = utf16 ''abc12345''"

definition signedIn :: chat where
  "signedIn = run None InitOk [AuthStateChanged (Some visitor) Subscribed]"

definition signedOutWithDraft :: chat where
  "signedOutWithDraft =
     run None InitOk
       [AuthStateChanged (Some visitor) Subscribed,
        AuthStateChanged None Subscribed,
        Typed (utf16 ''hi'')]"

text \<open>A session in which \<^verbatim>\<open>getFirestore\<close> threw, so that the identity is known and the
  document-store handle is not; the visitor has typed \<open>hi\<close>.\<close>

definition signedInWithoutDb :: chat where
  "signedInWithoutDb =
     run None InitOk [AuthStateChanged (Some visitor) GetFirestoreThrew, Typed (utf16 ''hi'')]"

text \<open>The visitor has typed \<open>hi\<close> with a blank on each side; the write that a send
  then issues.\<close>

definition draftedHi :: chat where
  "draftedHi =
     run None InitOk [AuthStateChanged (Some visitor) Subscribed, Typed (utf16 '' hi '')]"

definition hiPayload :: payload where
  "hiPayload = \<lparr> w_text = utf16 ''hi'', w_userId = visitor, w_timestamp = ServerTimestamp \<rparr>"

text \<open>A page that was given a token, and events in which the identity goes away.\<close>

definition tokenWindow :: "window option" where
  "tokenWindow = Some \<lparr> initial_auth_token = Some (utf16 ''tok'') \<rparr>"

definition switchedUser :: "event list" where
  "switchedUser = [AuthStateChanged (Some visitor) Subscribed, AuthStateChanged None Subscribed]"

text \<open>A snapshot in which the second document has no timestamp yet.\<close>

definition mixedSnapshot :: "qdoc list" where
  "mixedSnapshot =
     [\<lparr> d_id = utf16 ''m1'',
        d_data = \<lparr> f_text = Some (utf16 ''a''), f_userId = Some visitor,
                   f_timestamp = TsTimestamp 2000 \<rparr> \<rparr>,
      \<lparr> d_id = utf16 ''m2'',
        d_data = \<lparr> f_text = Some (utf16 ''b''), f_userId = Some visitor,
                   f_timestamp = TsMissing \<rparr> \<rparr>,
      \<lparr> d_id = utf16 ''m3'',
        d_data = \<lparr> f_text = Some (utf16 ''c''), f_userId = Some visitor,
                   f_timestamp = TsTimestamp 1000 \<rparr> \<rparr>]"

section \<open>Properties\<close>

subsection \<open>Unfolding and evaluation\<close>

lemmas effect_defs = subscriptionEffect_def subscriptionCleanup_def release_def
  openListener_def logged_def

lemmas handler_defs = onAuthStateChangedCb_def doAuth_def signInSettled_def
  onSnapshotCb_def onSnapshotErrorCb_def handleSend_def addDocSettled_def

lemmas eval_defs = run_def step_def commit_def depsChanged_def mount_def initial_def
  handler_defs effect_defs utf16_def getInitialAuthToken_def doAuthCall_def truthy_def
  sendPayload_def trim_def isWhiteSpace_def visitor_def

lemma step_unmounted: "\<not> mounted s \<Longrightarrow> step e s = s"
  by (simp add: step_def)

lemma step_same_deps: "mounted s \<Longrightarrow> \<not> depsChanged s (handle e s) \<Longrightarrow> step e s = handle e s"
  by (simp add: step_def commit_def)

lemma step_changed_deps:
  "mounted s \<Longrightarrow> depsChanged s (handle e s) \<Longrightarrow>
     step e s = subscriptionEffect (effectOutcome e) (subscriptionCleanup (handle e s))"
  by (simp add: step_def commit_def)

lemma effect_fields [simp]:
  "status (subscriptionEffect fx s) = status s"
  "userId (subscriptionEffect fx s) = userId s"
  "isAuthReady (subscriptionEffect fx s) = isAuthReady s"
  "mounted (subscriptionEffect fx s) = mounted s"
  "authObserver (subscriptionEffect fx s) = authObserver s"
  "token (subscriptionEffect fx s) = token s"
  "newMessage (subscriptionEffect fx s) = newMessage s"
  "writes (subscriptionEffect fx s) = writes s"
  "pendingWrites (subscriptionEffect fx s) = pendingWrites s"
  "signIns (subscriptionEffect fx s) = signIns s"
  "messages (subscriptionEffect fx s) = messages s"
  by (cases fx; simp add: effect_defs split: option.split)+

lemma cleanup_fields [simp]:
  "status (subscriptionCleanup s) = status s"
  "userId (subscriptionCleanup s) = userId s"
  "isAuthReady (subscriptionCleanup s) = isAuthReady s"
  "mounted (subscriptionCleanup s) = mounted s"
  "authObserver (subscriptionCleanup s) = authObserver s"
  "token (subscriptionCleanup s) = token s"
  "newMessage (subscriptionCleanup s) = newMessage s"
  "writes (subscriptionCleanup s) = writes s"
  "pendingWrites (subscriptionCleanup s) = pendingWrites s"
  "signIns (subscriptionCleanup s) = signIns s"
  "messages (subscriptionCleanup s) = messages s"
  "nextListener (subscriptionCleanup s) = nextListener s"
  "unsubRef (subscriptionCleanup s) = unsubRef s"
  "dbRef (subscriptionCleanup s) = dbRef s"
  "subCleanup (subscriptionCleanup s) = subCleanup s"
  "console (subscriptionCleanup s) = console s"
  by (simp_all add: subscriptionCleanup_def release_def split: option.split)

lemma commit_fields [simp]:
  "status (commit fx old new) = status new"
  "userId (commit fx old new) = userId new"
  "isAuthReady (commit fx old new) = isAuthReady new"
  "mounted (commit fx old new) = mounted new"
  "authObserver (commit fx old new) = authObserver new"
  "token (commit fx old new) = token new"
  "newMessage (commit fx old new) = newMessage new"
  "writes (commit fx old new) = writes new"
  "pendingWrites (commit fx old new) = pendingWrites new"
  "signIns (commit fx old new) = signIns new"
  "messages (commit fx old new) = messages new"
  by (simp_all add: commit_def)

text \<open>Only the auth callback with a user changes a dependency of the subscription
  effect, and it sets the status to Online in the same render.\<close>

lemma handle_deps:
  "depsChanged s (handle e s) \<Longrightarrow>
     (\<exists>uid fx. e = AuthStateChanged (Some uid) fx) \<and> status (handle e s) = Online
       \<and> userId (handle e s) \<noteq> None \<and> mounted (handle e s) = mounted s"
  by (cases e)
     (auto simp: depsChanged_def handler_defs logged_def sendPayload_def Let_def
        split: option.splits if_splits)

lemma not_auth_same_deps:
  "\<forall>uid fx. e \<noteq> AuthStateChanged (Some uid) fx \<Longrightarrow> \<not> depsChanged s (handle e s)"
  using handle_deps[of s e] by blast

lemma handle_nextListener [simp]: "nextListener (handle e s) = nextListener s"
  by (cases e) (auto simp: handler_defs logged_def split: option.splits)

lemma run_induct:
  assumes "P (mount w io)" and "\<And>s e. P s \<Longrightarrow> P (step e s)"
  shows "P (run w io es)"
proof -
  have "P s \<Longrightarrow> P (foldl (\<lambda>s e. step e s) s es)" for s
    by (induction es arbitrary: s) (simp_all add: assms(2))
  then show ?thesis by (simp add: run_def assms(1))
qed

lemma step_Send: "step Send s = (if mounted s then handleSend s else s)"
  using step_same_deps[of s Send] not_auth_same_deps[of Send s] by (simp add: step_unmounted)

lemma step_AddDocSettled:
  "step (AddDocSettled ok) s = (if mounted s then addDocSettled ok s else s)"
  using step_same_deps[of s "AddDocSettled ok"] not_auth_same_deps[of "AddDocSettled ok" s]
  by (simp add: step_unmounted)

lemma step_Snapshot:
  "step (Snapshot i snap) s = (if mounted s \<and> i \<in> listeners s then onSnapshotCb snap s else s)"
proof (cases "mounted s")
  case True
  with step_same_deps[of s "Snapshot i snap"] not_auth_same_deps[of "Snapshot i snap" s]
  show ?thesis by simp
qed (simp add: step_unmounted)

subsection \<open>The sort\<close>

lemma sortInsert_insort_key:
  "sortInsert compareDocs x ys = insort_key millisOr0 x ys"
  by (induction ys) (simp_all add: compareDocs_def)

lemma sortDocs_sort_key: "sortDocs docs = sort_key millisOr0 docs"
  by (induction docs) (simp_all add: sortDocs_def arraySort_def sortInsert_insort_key)

text \<open>Inserting a position that is smaller than every position already placed keeps the
  positions in the order (key, position).\<close>

lemma insort_key_index_order:
  fixes k :: "nat \<Rightarrow> real"
  assumes "sorted_wrt (\<lambda>i j. k i < k j \<or> (k i = k j \<and> i < j)) ys"
    and "\<forall>y \<in> set ys. a < y"
  shows "sorted_wrt (\<lambda>i j. k i < k j \<or> (k i = k j \<and> i < j)) (insort_key k a ys)"
  using assms by (induction ys) (auto simp: set_insort_key)

lemma sort_key_index_order:
  fixes k :: "nat \<Rightarrow> real"
  assumes "sorted_wrt (<) xs"
  shows "sorted_wrt (\<lambda>i j. k i < k j \<or> (k i = k j \<and> i < j)) (sort_key k xs)"
  using assms by (induction xs) (auto intro: insort_key_index_order)

lemma map_insort_key_comp:
  "map f (insort_key (\<lambda>i. g (f i)) x xs) = insort_key g (f x) (map f xs)"
  by (induction xs) simp_all

lemma map_sort_key_comp:
  "map f (sort_key (\<lambda>i. g (f i)) xs) = sort_key g (map f xs)"
  by (induction xs) (simp_all add: map_insort_key_comp)

lemma sortDocs_by_indices:
  "sortDocs docs = map ((!) docs) (sort_key (\<lambda>i. millisOr0 (docs ! i)) [0..<length docs])"
  by (simp add: sortDocs_sort_key map_sort_key_comp map_nth)

text \<open>
  C1. For every snapshot the sorted list is the incoming array rearranged by a
  permutation \<open>p\<close> of its positions that ascends in the order (key, position), where
  the key is \<open>millisOr0\<close>: the timestamp's milliseconds, and 0 when there is none. So
  the keys ascend, no document is lost or invented, and documents with equal keys keep
  their incoming order. Two documents stamped 2000 and 1000, arriving in that order, come
  out with the one stamped 1000 first.
\<close>

theorem ordering_policy_sorted:
  "(\<exists>p. mset p = mset [0..<length docs]
        \<and> sortDocs docs = map ((!) docs) p
        \<and> sorted_wrt (keyThenIndex docs) p)
   \<and> sorted (map millisOr0 (sortDocs docs))
   \<and> mset (sortDocs docs) = mset docs
   \<and> filter (\<lambda>d. millisOr0 d = k) (sortDocs docs) = filter (\<lambda>d. millisOr0 d = k) docs
   \<and> sortDocs [a\<lparr>doc_timestamp := TsTimestamp 2000\<rparr>, b\<lparr>doc_timestamp := TsTimestamp 1000\<rparr>]
       = [b\<lparr>doc_timestamp := TsTimestamp 1000\<rparr>, a\<lparr>doc_timestamp := TsTimestamp 2000\<rparr>]
   \<and> millisOr0 (a\<lparr>doc_timestamp := TsTimestamp ms\<rparr>) = ms
   \<and> millisOr0 (a\<lparr>doc_timestamp := TsMissing\<rparr>) = 0"
proof -
  let ?p = "sort_key (\<lambda>i. millisOr0 (docs ! i)) [0..<length docs]"
  have "sorted_wrt (\<lambda>i j. millisOr0 (docs ! i) < millisOr0 (docs ! j)
           \<or> (millisOr0 (docs ! i) = millisOr0 (docs ! j) \<and> i < j)) ?p"
    by (rule sort_key_index_order) simp
  then have "sorted_wrt (keyThenIndex docs) ?p"
    by (simp add: keyThenIndex_def[abs_def])
  moreover have "mset ?p = mset [0..<length docs]" by simp
  moreover have "sortDocs docs = map ((!) docs) ?p" by (rule sortDocs_by_indices)
  ultimately have 1: "\<exists>p. mset p = mset [0..<length docs]
        \<and> sortDocs docs = map ((!) docs) p \<and> sorted_wrt (keyThenIndex docs) p"
    by blast
  have 2: "sorted (map millisOr0 (sortDocs docs))"
    by (simp add: sortDocs_sort_key)
  have 3: "mset (sortDocs docs) = mset docs"
    by (simp add: sortDocs_sort_key)
  have 4: "filter (\<lambda>d. millisOr0 d = k) (sortDocs docs) = filter (\<lambda>d. millisOr0 d = k) docs"
    by (simp add: sortDocs_sort_key sort_key_stable)
  have 5: "sortDocs [a\<lparr>doc_timestamp := TsTimestamp 2000\<rparr>, b\<lparr>doc_timestamp := TsTimestamp 1000\<rparr>]
       = [b\<lparr>doc_timestamp := TsTimestamp 1000\<rparr>, a\<lparr>doc_timestamp := TsTimestamp 2000\<rparr>]"
    by (simp add: sortDocs_def arraySort_def compareDocs_def millisOr0_def)
  have 6: "millisOr0 (a\<lparr>doc_timestamp := TsTimestamp ms\<rparr>) = ms"
    "millisOr0 (a\<lparr>doc_timestamp := TsMissing\<rparr>) = 0"
    by (simp_all add: millisOr0_def)
  from 1 2 3 4 5 6 show ?thesis by blast
qed

lemma sortDocs_idem: "sortDocs (sortDocs docs) = sortDocs docs"
  by (simp add: sortDocs_sort_key sort_key_id_if_sorted)

text \<open>
  C2. The Ordering Policy is a function of the snapshot alone. Sorting a sorted list
  changes nothing; the messages stored by the snapshot callback are the sorted snapshot,
  whatever the state was; delivering the same snapshot again leaves the state as it is;
  and the callback changes no part of the state but \<open>messages\<close>.
\<close>

theorem ordering_policy_pure:
  "sortDocs (sortDocs docs) = sortDocs docs
   \<and> messages (onSnapshotCb snap s) = messages (onSnapshotCb snap t)
   \<and> messages (onSnapshotCb snap s) = sortDocs (collectDocs snap)
   \<and> onSnapshotCb snap (onSnapshotCb snap s) = onSnapshotCb snap s
   \<and> (onSnapshotCb snap s)\<lparr> messages := messages s \<rparr> = s
   \<and> step (Snapshot i snap) (step (Snapshot i snap) s) = step (Snapshot i snap) s"
proof -
  have 1: "onSnapshotCb snap (onSnapshotCb snap s) = onSnapshotCb snap s"
    by (simp add: onSnapshotCb_def)
  have 2: "step (Snapshot i snap) (step (Snapshot i snap) s) = step (Snapshot i snap) s"
    by (simp add: step_Snapshot onSnapshotCb_def)
  have 3: "(onSnapshotCb snap s)\<lparr> messages := messages s \<rparr> = s"
    by (simp add: onSnapshotCb_def)
  from 1 2 3 show ?thesis by (simp add: sortDocs_idem) (simp add: onSnapshotCb_def)
qed

theorem ordering_policy_pure_witness:
  "map doc_id (sortDocs (collectDocs mixedSnapshot)) = [utf16 ''m2'', utf16 ''m3'', utf16 ''m1'']
   \<and> sortDocs (sortDocs (collectDocs mixedSnapshot)) = sortDocs (collectDocs mixedSnapshot)
   \<and> messages (onSnapshotCb mixedSnapshot signedIn) = messages (onSnapshotCb mixedSnapshot draftedHi)"
proof -
  have "map doc_id (sortDocs (collectDocs mixedSnapshot)) = [utf16 ''m2'', utf16 ''m3'', utf16 ''m1'']"
    by (simp add: mixedSnapshot_def collectDocs_def toDoc_def sortDocs_def arraySort_def
          compareDocs_def millisOr0_def)
  with ordering_policy_pure[of "collectDocs mixedSnapshot" mixedSnapshot signedIn draftedHi]
  show ?thesis by blast
qed

subsection \<open>The session\<close>

lemma sessionInv_handle: "sessionInv s \<Longrightarrow> sessionInv (handle e s)"
  by (cases e) (auto simp: sessionInv_def handler_defs logged_def split: option.splits)

lemma sessionInv_step: "sessionInv s \<Longrightarrow> sessionInv (step e s)"
  using sessionInv_handle[of s e] by (simp add: step_def sessionInv_def)

lemma sessionInv_mount: "sessionInv (mount w io)"
  by (cases io) (simp_all add: sessionInv_def mount_def initial_def doAuth_def logged_def)

text \<open>
  C9. The invariant "status Online implies an identity" is kept by every step from any
  state that has it, it holds after mounting, and so it holds after every sequence of
  events: whenever the status shown is Online, \<open>userId\<close> is not null.
\<close>

theorem online_has_identity:
  "(sessionInv s \<longrightarrow> sessionInv (step e s))
   \<and> sessionInv (run w io es)
   \<and> (status (run w io es) = Online \<longrightarrow> userId (run w io es) \<noteq> None)"
proof -
  have "sessionInv (run w io es)"
    by (rule run_induct) (simp_all add: sessionInv_mount sessionInv_step)
  then show ?thesis by (simp add: sessionInv_step) (simp add: sessionInv_def)
qed

theorem online_has_identity_witness:
  "sessionInv (mount None InitOk)
   \<and> sessionInv (step (AuthStateChanged (Some visitor) Subscribed) (mount None InitOk))
   \<and> status (run None InitOk [AuthStateChanged (Some visitor) Subscribed]) = Online
   \<and> userId (run None InitOk [AuthStateChanged (Some visitor) Subscribed]) = Some visitor"
proof -
  have a: "sessionInv (mount None InitOk)"
    by (simp add: sessionInv_def mount_def initial_def doAuth_def)
  have b: "status (run None InitOk [AuthStateChanged (Some visitor) Subscribed]) = Online"
    by (simp add: eval_defs)
  have c: "userId (run None InitOk [AuthStateChanged (Some visitor) Subscribed]) = Some visitor"
    by (simp add: eval_defs)
  from a b c
    online_has_identity[of "mount None InitOk" "AuthStateChanged (Some visitor) Subscribed"
      None InitOk "[AuthStateChanged (Some visitor) Subscribed]"]
  show ?thesis by blast
qed

subsection \<open>Sign-in\<close>

lemma authInv_handle: "authInv w s \<Longrightarrow> authInv w (handle e s)"
  by (cases e) (auto simp: authInv_def handler_defs logged_def split: option.splits)

lemma authInv_step: "authInv w s \<Longrightarrow> authInv w (step e s)"
  using authInv_handle[of w s e] by (simp add: step_def authInv_def)

lemma authInv_mount: "authInv w (mount w io)"
  by (cases io) (simp_all add: authInv_def mount_def initial_def doAuth_def logged_def)

lemma authInv_run: "authInv w (run w io es)"
  by (rule run_induct) (simp_all add: authInv_mount authInv_step)

lemma doAuthCall_custom:
  "doAuthCall (getInitialAuthToken w) = SignInWithCustomToken t \<longleftrightarrow>
     (\<exists>win. w = Some win \<and> initial_auth_token win = Some t \<and> t \<noteq> [])"
  by (auto simp: doAuthCall_def getInitialAuthToken_def truthy_def split: option.splits if_splits)

lemma doAuthCall_anonymous:
  "doAuthCall (getInitialAuthToken w) = SignInAnonymously \<longleftrightarrow>
     (w = None \<or> (\<exists>win. w = Some win \<and>
            (initial_auth_token win = None \<or> initial_auth_token win = Some [])))"
  by (auto simp: doAuthCall_def getInitialAuthToken_def truthy_def split: option.splits if_splits)

text \<open>
  C8. Every sign-in the component makes, at mount and after each report that the
  identity is gone, is the call \<^verbatim>\<open>doAuth\<close> chooses for the token read at mount: the
  custom-token sign-in with token \<open>t\<close> exactly when \<^verbatim>\<open>window\<close> exists and holds the
  non-empty string \<open>t\<close>, and the anonymous sign-in exactly when there is no window, no
  token, or the empty string (which JavaScript takes for no token). Mounting without a
  token is not an error: the status stays Connecting and nothing is logged, and a
  rejected sign-in is logged without a change of status.
\<close>

theorem sign_in_choice:
  "(\<forall>c \<in> set (signIns (run w io es)). c = doAuthCall (getInitialAuthToken w))
   \<and> signIns (mount w InitOk) = [doAuthCall (getInitialAuthToken w)]
   \<and> (doAuthCall (getInitialAuthToken w) = SignInWithCustomToken t \<longleftrightarrow>
        (\<exists>win. w = Some win \<and> initial_auth_token win = Some t \<and> t \<noteq> []))
   \<and> (doAuthCall (getInitialAuthToken w) = SignInAnonymously \<longleftrightarrow>
        (w = None \<or> (\<exists>win. w = Some win \<and>
            (initial_auth_token win = None \<or> initial_auth_token win = Some []))))
   \<and> status (mount w InitOk) = Connecting \<and> console (mount w InitOk) = []
   \<and> console (signInSettled ok s) = (if 0 < pendingSignIns s \<and> \<not> ok then console s @ [AuthErrorLog] else console s)
   \<and> status (signInSettled ok s) = status s"
proof -
  have "authInv w (run w io es)" by (rule authInv_run)
  then have 1: "\<forall>c \<in> set (signIns (run w io es)). c = doAuthCall (getInitialAuthToken w)"
    by (auto simp: authInv_def)
  have 2: "signIns (mount w InitOk) = [doAuthCall (getInitialAuthToken w)]"
    "status (mount w InitOk) = Connecting" "console (mount w InitOk) = []"
    by (simp_all add: mount_def initial_def doAuth_def)
  have 3: "console (signInSettled ok s) = (if 0 < pendingSignIns s \<and> \<not> ok then console s @ [AuthErrorLog] else console s)"
    "status (signInSettled ok s) = status s"
    by (simp_all add: signInSettled_def logged_def)
  show ?thesis
    by (intro conjI 1 2 3 doAuthCall_custom doAuthCall_anonymous)
qed

theorem sign_in_choice_witness:
  "signIns (run tokenWindow InitOk [AuthStateChanged None Subscribed])
     = [SignInWithCustomToken (utf16 ''tok''), SignInWithCustomToken (utf16 ''tok'')]
   \<and> doAuthCall (getInitialAuthToken tokenWindow) = SignInWithCustomToken (utf16 ''tok'')
   \<and> signIns (run None InitOk [AuthStateChanged None Subscribed])
     = [SignInAnonymously, SignInAnonymously]
   \<and> doAuthCall (getInitialAuthToken None) = SignInAnonymously"
proof -
  have a: "signIns (run tokenWindow InitOk [AuthStateChanged None Subscribed])
     = [SignInWithCustomToken (utf16 ''tok''), SignInWithCustomToken (utf16 ''tok'')]"
    by (simp add: tokenWindow_def eval_defs)
  have b: "signIns (run None InitOk [AuthStateChanged None Subscribed])
     = [SignInAnonymously, SignInAnonymously]"
    by (simp add: eval_defs)
  from sign_in_choice[where w = tokenWindow and io = InitOk and es = "[AuthStateChanged None Subscribed]"]
  have "\<forall>c \<in> set (signIns (run tokenWindow InitOk [AuthStateChanged None Subscribed])).
      c = doAuthCall (getInitialAuthToken tokenWindow)" by blast
  with a have c: "doAuthCall (getInitialAuthToken tokenWindow) = SignInWithCustomToken (utf16 ''tok'')"
    by simp
  from sign_in_choice[where w = None and io = InitOk and es = "[AuthStateChanged None Subscribed]"]
  have "\<forall>c \<in> set (signIns (run None InitOk [AuthStateChanged None Subscribed])).
      c = doAuthCall (getInitialAuthToken None)" by blast
  with b have d: "doAuthCall (getInitialAuthToken None) = SignInAnonymously"
    by simp
  from a b c d show ?thesis by blast
qed


subsection \<open>The feed subscription\<close>

lemma feedInv_mount: "feedInv (mount w io)"
  by (cases io) (simp_all add: feedInv_def mount_def initial_def doAuth_def logged_def)

lemma gateInv_mount: "gateInv (mount w io)"
  by (cases io) (simp_all add: gateInv_def mount_def initial_def doAuth_def logged_def)

lemma feedInv_cleanup:
  "feedInv s \<Longrightarrow> listeners (subscriptionCleanup s) = {} \<and> feedInv (subscriptionCleanup s)"
  by (cases "unsubRef s") (auto simp: feedInv_def subscriptionCleanup_def release_def)

lemma feedInv_release: "feedInv s \<Longrightarrow> listeners (release s) = {}"
  by (cases "unsubRef s") (auto simp: feedInv_def release_def)

lemma feedInv_effect:
  "listeners s = {} \<Longrightarrow> mounted s \<Longrightarrow>
     feedInv (subscriptionEffect fx s) \<and> gateInv (subscriptionEffect fx s)"
  by (cases fx; cases "unsubRef s")
     (simp_all add: feedInv_def gateInv_def subscriptionEffect_def release_def
        openListener_def logged_def)

lemma feedInv_handle: "feedInv s \<Longrightarrow> feedInv (handle e s)"
proof (cases e)
  case Unmount
  assume "feedInv s"
  from feedInv_cleanup[OF this] show ?thesis
    by (simp add: Unmount feedInv_def)
qed (auto simp: feedInv_def handler_defs logged_def sendPayload_def Let_def split: option.splits)

lemma gateInv_handle:
  "gateInv s \<Longrightarrow> \<not> depsChanged s (handle e s) \<Longrightarrow> gateInv (handle e s)"
proof (cases e)
  case Unmount
  then show "gateInv s \<Longrightarrow> ?thesis"
    by (auto simp: gateInv_def subscriptionCleanup_def release_def split: option.splits)
qed (auto simp: gateInv_def depsChanged_def handler_defs logged_def sendPayload_def Let_def
       split: option.splits)

lemma feed_gate_step:
  assumes "feedInv s \<and> gateInv s"
  shows "feedInv (step e s) \<and> gateInv (step e s)"
proof (cases "mounted s")
  case False
  with assms show ?thesis by (simp add: step_unmounted)
next
  case True
  from assms have h: "feedInv (handle e s)" by (simp add: feedInv_handle)
  show ?thesis
  proof (cases "depsChanged s (handle e s)")
    case False
    with assms have "gateInv (handle e s)" by (simp add: gateInv_handle)
    with False h True show ?thesis by (simp add: step_same_deps)
  next
    case d: True
    from handle_deps[OF d] True have "mounted (subscriptionCleanup (handle e s))" by simp
    moreover from feedInv_cleanup[OF h] have "listeners (subscriptionCleanup (handle e s)) = {}"
      by simp
    ultimately have "feedInv (subscriptionEffect (effectOutcome e) (subscriptionCleanup (handle e s)))
       \<and> gateInv (subscriptionEffect (effectOutcome e) (subscriptionCleanup (handle e s)))"
      by (intro feedInv_effect)
    then show ?thesis by (simp add: step_changed_deps[OF True d])
  qed
qed

lemma feed_gate_run: "feedInv (run w io es) \<and> gateInv (run w io es)"
  by (rule run_induct) (simp_all add: feedInv_mount gateInv_mount feed_gate_step)

lemma feedInv_card: "feedInv s \<Longrightarrow> finite (listeners s) \<and> card (listeners s) \<le> 1"
  by (cases "unsubRef s") (auto simp: feedInv_def subset_singleton_iff)

lemma effect_opens:
  "nextListener (subscriptionEffect fx s) \<noteq> nextListener s \<Longrightarrow>
     isAuthReady s \<and> truthy (userId s) \<and> fx = Subscribed
     \<and> listeners (subscriptionEffect fx s) = insert (nextListener s) (listeners (release s))
     \<and> unsubRef (subscriptionEffect fx s) = Some (nextListener s)"
  by (cases fx; cases "unsubRef s")
     (auto simp: subscriptionEffect_def release_def openListener_def logged_def split: if_splits)

lemma step_opens_cases:
  assumes "nextListener (step e s) \<noteq> nextListener s"
  shows "mounted s \<and> depsChanged s (handle e s)
     \<and> nextListener (subscriptionEffect (effectOutcome e) (subscriptionCleanup (handle e s)))
          \<noteq> nextListener (subscriptionCleanup (handle e s))"
proof -
  from assms have m: "mounted s" by (cases "mounted s") (simp_all add: step_unmounted)
  from assms m have d: "depsChanged s (handle e s)"
    by (cases "depsChanged s (handle e s)") (simp_all add: step_same_deps)
  from assms show ?thesis by (simp add: m d step_changed_deps[OF m d])
qed

lemma step_opens:
  assumes "nextListener (step e s) \<noteq> nextListener s"
  shows "status (step e s) = Online \<and> userId (step e s) \<noteq> None
         \<and> isAuthReady (step e s) \<and> truthy (userId (step e s))"
proof -
  from step_opens_cases[OF assms] have m: "mounted s" and d: "depsChanged s (handle e s)"
    and n: "nextListener (subscriptionEffect (effectOutcome e) (subscriptionCleanup (handle e s)))
          \<noteq> nextListener (subscriptionCleanup (handle e s))" by simp_all
  from effect_opens[OF n] handle_deps[OF d] show ?thesis
    by (simp add: step_changed_deps[OF m d])
qed

lemma step_opens_fresh:
  assumes "feedInv s" "nextListener (step e s) \<noteq> nextListener s"
  shows "listeners (step e s) = {nextListener s} \<and> nextListener s \<notin> listeners s"
proof -
  let ?c = "subscriptionCleanup (handle e s)"
  from step_opens_cases[OF assms(2)] have m: "mounted s" and d: "depsChanged s (handle e s)"
    and n: "nextListener (subscriptionEffect (effectOutcome e) ?c) \<noteq> nextListener ?c" by simp_all
  from effect_opens[OF n]
  have "listeners (subscriptionEffect (effectOutcome e) ?c)
          = insert (nextListener ?c) (listeners (release ?c))"
    by blast
  moreover have "feedInv ?c" using assms(1) by (simp add: feedInv_handle feedInv_cleanup)
  then have "listeners (release ?c) = {}" by (rule feedInv_release)
  ultimately have "listeners (step e s) = {nextListener s}"
    by (simp add: step_changed_deps[OF m d])
  moreover from assms(1) have "nextListener s \<notin> listeners s" by (auto simp: feedInv_def)
  ultimately show ?thesis by simp
qed

lemma listeners_grow_only_by_opening:
  "listeners (step e s) \<subseteq> listeners s \<or> nextListener (step e s) \<noteq> nextListener s"
proof (cases "mounted s")
  case False
  then show ?thesis by (simp add: step_unmounted)
next
  case True
  show ?thesis
  proof (cases "depsChanged s (handle e s)")
    case False
    have "listeners (handle e s) \<subseteq> listeners s"
      by (cases e) (auto simp: handler_defs effect_defs split: option.splits)
    with True False show ?thesis by (simp add: step_same_deps)
  next
    case d: True
    have h: "listeners (handle e s) \<subseteq> listeners s"
      by (cases e) (auto simp: handler_defs effect_defs split: option.splits)
    have c: "listeners (subscriptionCleanup t) \<subseteq> listeners t" for t
      by (auto simp: subscriptionCleanup_def release_def split: option.splits)
    have f: "listeners (subscriptionEffect fx t) \<subseteq> listeners t
        \<or> nextListener (subscriptionEffect fx t) \<noteq> nextListener t" for fx t
      by (cases fx) (auto simp: subscriptionEffect_def release_def openListener_def logged_def split: option.splits)
    from f[of "effectOutcome e" "subscriptionCleanup (handle e s)"] c[of "handle e s"] h
    show ?thesis by (auto simp: step_changed_deps[OF True d])
  qed
qed

lemma unmount_releases: "feedInv s \<Longrightarrow> listeners (step Unmount s) = {}"
proof (cases "mounted s")
  case True
  assume "feedInv s"
  from feedInv_cleanup[OF this] True show ?thesis
    by (simp add: step_def commit_def depsChanged_def)
next
  case False
  assume "feedInv s"
  with False show ?thesis by (auto simp: step_unmounted feedInv_def)
qed

text \<open>
  C6. The subscription effect opens a listener only past its guard, that is with
  \<open>isAuthReady\<close> set and a non-empty \<open>userId\<close>. A step that opens a listener is a
  step whose state shows status Online and an identity: the effect runs again only after
  the auth callback with a user, which sets the three cells in one render. Listeners
  appear in no other way, and in every reachable state with a live listener the identity
  is not null.
\<close>

theorem subscription_gated:
  "(nextListener (subscriptionEffect fx s) \<noteq> nextListener s \<longrightarrow> isAuthReady s \<and> truthy (userId s))
   \<and> (nextListener (step e s) \<noteq> nextListener s \<longrightarrow>
        status (step e s) = Online \<and> userId (step e s) \<noteq> None)
   \<and> (listeners (step e s) \<subseteq> listeners s \<or> nextListener (step e s) \<noteq> nextListener s)
   \<and> (listeners (run w io es) \<noteq> {} \<longrightarrow>
        userId (run w io es) \<noteq> None \<and> isAuthReady (run w io es))"
proof -
  have "gateInv (run w io es)" using feed_gate_run by simp
  then have "listeners (run w io es) \<noteq> {} \<longrightarrow>
        userId (run w io es) \<noteq> None \<and> isAuthReady (run w io es)"
    by (auto simp: gateInv_def truthy_def)
  with effect_opens[of fx s] step_opens[of e s] listeners_grow_only_by_opening[of e s]
  show ?thesis by blast
qed

theorem subscription_gated_witness:
  "nextListener signedIn = 1
   \<and> nextListener (subscriptionEffect Subscribed signedIn) = 2
   \<and> isAuthReady signedIn \<and> truthy (userId signedIn)
   \<and> nextListener (step (AuthStateChanged (Some (utf16 ''u2'')) Subscribed) signedIn) = 2
   \<and> status (step (AuthStateChanged (Some (utf16 ''u2'')) Subscribed) signedIn) = Online
   \<and> userId (step (AuthStateChanged (Some (utf16 ''u2'')) Subscribed) signedIn) \<noteq> None
   \<and> listeners (run None InitOk [AuthStateChanged (Some visitor) Subscribed]) = {0}
   \<and> userId (run None InitOk [AuthStateChanged (Some visitor) Subscribed]) \<noteq> None
   \<and> isAuthReady (run None InitOk [AuthStateChanged (Some visitor) Subscribed])"
proof -
  have a: "nextListener signedIn = 1"
    "nextListener (subscriptionEffect Subscribed signedIn) = 2"
    "nextListener (step (AuthStateChanged (Some (utf16 ''u2'')) Subscribed) signedIn) = 2"
    by (simp_all add: signedIn_def eval_defs)
  have b: "listeners (run None InitOk [AuthStateChanged (Some visitor) Subscribed]) = {0}"
    by (simp add: eval_defs)
  from a have c: "nextListener (subscriptionEffect Subscribed signedIn) \<noteq> nextListener signedIn"
    "nextListener (step (AuthStateChanged (Some (utf16 ''u2'')) Subscribed) signedIn)
       \<noteq> nextListener signedIn"
    by simp_all
  from b have d: "listeners (run None InitOk [AuthStateChanged (Some visitor) Subscribed]) \<noteq> {}"
    by simp
  from c d
    subscription_gated[where fx = Subscribed and s = signedIn
      and e = "AuthStateChanged (Some (utf16 ''u2'')) Subscribed"
      and w = None and io = InitOk and es = "[AuthStateChanged (Some visitor) Subscribed]"]
  have "isAuthReady signedIn \<and> truthy (userId signedIn)
   \<and> status (step (AuthStateChanged (Some (utf16 ''u2'')) Subscribed) signedIn) = Online
   \<and> userId (step (AuthStateChanged (Some (utf16 ''u2'')) Subscribed) signedIn) \<noteq> None
   \<and> userId (run None InitOk [AuthStateChanged (Some visitor) Subscribed]) \<noteq> None
   \<and> isAuthReady (run None InitOk [AuthStateChanged (Some visitor) Subscribed])"
    by blast
  with a b show ?thesis by blast
qed

text \<open>
  C7. In every reachable state at most one feed listener is live, and it is the one
  whose unsubscribe function \<^verbatim>\<open>unsubRef\<close> holds: releasing it leaves none. When the
  subscription effect runs after an event, no listener is live at the point where it
  calls \<^verbatim>\<open>onSnapshot\<close> (after the cleanup and its own release). A step that opens a
  listener ends with the new listener as the only live one, which was not live before,
  and unmounting leaves none.
\<close>

theorem single_subscription:
  "finite (listeners (run w io es)) \<and> card (listeners (run w io es)) \<le> 1
   \<and> listeners (release (run w io es)) = {}
   \<and> listeners (release (subscriptionCleanup (handle e (run w io es)))) = {}
   \<and> (nextListener (step e (run w io es)) \<noteq> nextListener (run w io es) \<longrightarrow>
        listeners (step e (run w io es)) = {nextListener (run w io es)}
        \<and> nextListener (run w io es) \<notin> listeners (run w io es))
   \<and> listeners (step Unmount (run w io es)) = {}"
proof -
  have inv: "feedInv (run w io es)" using feed_gate_run by simp
  have "feedInv (subscriptionCleanup (handle e (run w io es)))"
    using inv by (simp add: feedInv_handle feedInv_cleanup)
  then have mid: "listeners (release (subscriptionCleanup (handle e (run w io es)))) = {}"
    by (rule feedInv_release)
  from feedInv_card[OF inv] feedInv_release[OF inv] mid step_opens_fresh[OF inv, of e]
    unmount_releases[OF inv]
  show ?thesis by blast
qed

theorem single_subscription_witness:
  "listeners (run None InitOk switchedUser) = {0}
   \<and> nextListener (run None InitOk switchedUser) = 1
   \<and> nextListener (step (AuthStateChanged (Some (utf16 ''u2'')) Subscribed) (run None InitOk switchedUser)) = 2
   \<and> listeners (step (AuthStateChanged (Some (utf16 ''u2'')) Subscribed) (run None InitOk switchedUser)) = {1}
   \<and> card (listeners (run None InitOk switchedUser)) \<le> 1"
proof -
  have a: "listeners (run None InitOk switchedUser) = {0}"
    "nextListener (run None InitOk switchedUser) = 1"
    by (simp_all add: switchedUser_def eval_defs)
  have b: "nextListener (step (AuthStateChanged (Some (utf16 ''u2'')) Subscribed) (run None InitOk switchedUser)) = 2"
    by (simp add: switchedUser_def eval_defs)
  from a b single_subscription[of None InitOk switchedUser "AuthStateChanged (Some (utf16 ''u2'')) Subscribed"]
  show ?thesis by simp
qed


subsection \<open>The composer\<close>

lemma trim_empty_iff: "trim s = [] \<longleftrightarrow> (\<forall>c \<in> set s. isWhiteSpace c)"
proof -
  let ?d = "dropWhile isWhiteSpace s"
  have "(\<forall>c \<in> set ?d. isWhiteSpace c) \<longleftrightarrow> ?d = []"
  proof
    assume all: "\<forall>c \<in> set ?d. isWhiteSpace c"
    show "?d = []"
    proof (rule ccontr)
      assume ne: "?d \<noteq> []"
      then have "\<not> isWhiteSpace (hd ?d)" by (rule hd_dropWhile)
      moreover from ne have "hd ?d \<in> set ?d" by (rule hd_in_set)
      ultimately show False using all by blast
    qed
  qed (auto dest: set_dropWhileD)
  then have "trim s = [] \<longleftrightarrow> ?d = []"
    by (simp add: trim_def dropWhile_eq_Nil_conv)
  then show ?thesis by (simp add: dropWhile_eq_Nil_conv)
qed

lemma sendPayload_None_iff:
  "sendPayload s = None \<longleftrightarrow> dbRef s = None \<or> \<not> truthy (userId s) \<or> trim (newMessage s) = []"
  by (auto simp: sendPayload_def Let_def truthy_def split: option.splits)

lemma sendPayload_Some:
  "sendPayload s = Some p \<Longrightarrow>
     userId s = Some (w_userId p) \<and> w_userId p \<noteq> [] \<and> w_text p = trim (newMessage s)
     \<and> w_text p \<noteq> [] \<and> w_timestamp p = ServerTimestamp \<and> dbRef s \<noteq> None"
  by (auto simp: sendPayload_def Let_def truthy_def split: option.splits if_splits)

lemma handleSend_noop: "sendPayload s = None \<Longrightarrow> handleSend s = s"
  by (simp add: handleSend_def)

lemma handleSend_issues:
  "sendPayload s = Some p \<Longrightarrow>
     handleSend s = s\<lparr> writes := writes s @ [p], pendingWrites := Suc (pendingWrites s) \<rparr>"
  by (simp add: handleSend_def)

lemma idleInv_step: "idleInv s \<Longrightarrow> idleInv (step e s)"
proof -
  assume a: "idleInv s"
  have "idleInv (handle e s)"
    using a by (cases e) (auto simp: idleInv_def handler_defs logged_def split: option.splits)
  with a show ?thesis by (simp add: step_def idleInv_def)
qed

lemma idleInv_mount: "idleInv (mount w io)"
  by (cases io) (simp_all add: idleInv_def mount_def initial_def doAuth_def logged_def)

lemma idleInv_run: "idleInv (run w io es)"
  by (rule run_induct) (simp_all add: idleInv_mount idleInv_step)

lemma handle_writes:
  "writes (handle e s) = writes s
   \<or> (e = Send \<and> (\<exists>p. sendPayload s = Some p \<and> writes (handle e s) = writes s @ [p]))"
  by (cases e) (auto simp: handler_defs logged_def split: option.splits)

lemma step_writes:
  "writes (step e s) = writes s
   \<or> (e = Send \<and> (\<exists>p. sendPayload s = Some p \<and> writes (step e s) = writes s @ [p]))"
  using handle_writes[of e s] by (simp add: step_def)

lemma writesInv_step: "writesInv s \<Longrightarrow> writesInv (step e s)"
  using step_writes[of e s] sendPayload_Some[of s] by (auto simp: writesInv_def)

lemma writesInv_mount: "writesInv (mount w io)"
  by (cases io) (simp_all add: writesInv_def mount_def initial_def doAuth_def logged_def)

lemma writesInv_run: "writesInv (run w io es)"
  by (rule run_induct) (simp_all add: writesInv_mount writesInv_step)

lemma handle_dbRef: "dbRef (handle e s) = dbRef s"
  by (cases e) (auto simp: handler_defs logged_def split: option.splits)

lemma effect_dbRef:
  "dbRef (subscriptionEffect fx s) = dbRef s \<or> dbRef (subscriptionEffect fx s) = Some Firestore"
  by (cases fx) (auto simp: effect_defs split: option.splits)

lemma step_dbRef:
  "dbRef (step e s) \<noteq> dbRef s \<Longrightarrow>
     mounted s \<and> depsChanged s (handle e s) \<and> dbRef (step e s) = Some Firestore"
proof -
  assume a: "dbRef (step e s) \<noteq> dbRef s"
  then have m: "mounted s" by (cases "mounted s") (simp_all add: step_unmounted)
  from a m have d: "depsChanged s (handle e s)"
    by (cases "depsChanged s (handle e s)") (simp_all add: step_same_deps handle_dbRef)
  from a effect_dbRef[of "effectOutcome e" "subscriptionCleanup (handle e s)"]
  show ?thesis by (simp add: m d step_changed_deps[OF m d] handle_dbRef)
qed

text \<open>
  C3, as the claim states it, fails: after the provider has reported that the identity
  is gone the status is Auth required, the earlier \<open>userId\<close> is still held, the button
  is not disabled, and a send issues the write.
\<close>

theorem submit_guard_phase_counterexample:
  "status signedOutWithDraft = AuthRequired \<and> status signedOutWithDraft \<noteq> Online
   \<and> newMessage signedOutWithDraft = utf16 ''hi''
   \<and> \<not> isSendDisabled signedOutWithDraft
   \<and> writes signedOutWithDraft = []
   \<and> writes (step Send signedOutWithDraft) =
        [\<lparr> w_text = utf16 ''hi'', w_userId = visitor, w_timestamp = ServerTimestamp \<rparr>]"
  by (simp add: signedOutWithDraft_def isSendDisabled_def eval_defs)

text \<open>
  C3, amended. A send is a no-op (the whole state is unchanged: no write, the draft
  as it was, nothing logged) whenever the document-store handle is not set, or the
  identity is null or empty, or the draft trims to the empty string, which is the case
  exactly when all its code units are white space. In every reachable state whose status
  is Connecting or Init error the identity is null, so a send is a no-op there. The
  status itself is not part of the guard.
\<close>

theorem submit_guard:
  "(dbRef s = None \<or> userId s = None \<or> userId s = Some [] \<or> trim (newMessage s) = []
      \<or> (\<forall>c \<in> set (newMessage s). isWhiteSpace c)
      \<longrightarrow> handleSend s = s \<and> step Send s = s)
   \<and> (status (run w io es) = Connecting \<or> status (run w io es) = InitError
      \<longrightarrow> step Send (run w io es) = run w io es)"
proof -
  have 1: "sendPayload s = None \<Longrightarrow> handleSend s = s \<and> step Send s = s" for s
    by (simp add: handleSend_noop step_Send)
  have 2: "dbRef s = None \<or> userId s = None \<or> userId s = Some [] \<or> trim (newMessage s) = []
      \<or> (\<forall>c \<in> set (newMessage s). isWhiteSpace c) \<Longrightarrow> sendPayload s = None"
    by (auto simp: sendPayload_None_iff truthy_def trim_empty_iff)
  have 3: "status (run w io es) = Connecting \<or> status (run w io es) = InitError
      \<Longrightarrow> sendPayload (run w io es) = None"
    using idleInv_run[of w io es] by (simp add: idleInv_def sendPayload_None_iff truthy_def)
  from 1 2 3 show ?thesis by blast
qed

theorem submit_guard_witness:
  "trim (newMessage (step (Typed (utf16 ''  '')) signedIn)) = []
   \<and> step Send (step (Typed (utf16 ''  '')) signedIn) = step (Typed (utf16 ''  '')) signedIn
   \<and> status (run None InitOk [Typed (utf16 ''hi'')]) = Connecting
   \<and> step Send (run None InitOk [Typed (utf16 ''hi'')]) = run None InitOk [Typed (utf16 ''hi'')]"
proof -
  have a: "trim (newMessage (step (Typed (utf16 ''  '')) signedIn)) = []"
    by (simp add: signedIn_def eval_defs)
  have b: "status (run None InitOk [Typed (utf16 ''hi'')]) = Connecting"
    by (simp add: eval_defs)
  from a b submit_guard[of "step (Typed (utf16 ''  '')) signedIn" None InitOk "[Typed (utf16 ''hi'')]"]
  show ?thesis by blast
qed

text \<open>
  C4. A send past the guards issues one write and leaves the draft alone. When the
  write of a mounted component settles with success the draft becomes the empty string;
  when it settles with failure the draft is what it was, one line is logged, and no
  further write is issued. The guards are: the handle is set, the identity is non-empty,
  the trimmed draft is non-empty.
\<close>

theorem submit_settles:
  "(sendPayload s = Some p \<longrightarrow>
      writes (step Send s) = (if mounted s then writes s @ [p] else writes s)
      \<and> pendingWrites (handleSend s) = Suc (pendingWrites s)
      \<and> newMessage (handleSend s) = newMessage s)
   \<and> (mounted t \<and> 0 < pendingWrites t \<longrightarrow>
        newMessage (step (AddDocSettled True) t) = []
      \<and> writes (step (AddDocSettled True) t) = writes t
      \<and> console (step (AddDocSettled True) t) = console t
      \<and> newMessage (step (AddDocSettled False) t) = newMessage t
      \<and> writes (step (AddDocSettled False) t) = writes t
      \<and> console (step (AddDocSettled False) t) = console t @ [SendErrorLog]
      \<and> pendingWrites (step (AddDocSettled False) t) = pendingWrites t - 1)
   \<and> ((\<exists>q. sendPayload s = Some q) \<longleftrightarrow>
        dbRef s \<noteq> None \<and> truthy (userId s) \<and> trim (newMessage s) \<noteq> [])"
proof -
  have 1: "sendPayload s = Some p \<longrightarrow>
      writes (step Send s) = (if mounted s then writes s @ [p] else writes s)
      \<and> pendingWrites (handleSend s) = Suc (pendingWrites s)
      \<and> newMessage (handleSend s) = newMessage s"
    by (simp add: step_Send handleSend_issues)
  have 2: "mounted t \<and> 0 < pendingWrites t \<longrightarrow>
        newMessage (step (AddDocSettled True) t) = []
      \<and> writes (step (AddDocSettled True) t) = writes t
      \<and> console (step (AddDocSettled True) t) = console t
      \<and> newMessage (step (AddDocSettled False) t) = newMessage t
      \<and> writes (step (AddDocSettled False) t) = writes t
      \<and> console (step (AddDocSettled False) t) = console t @ [SendErrorLog]
      \<and> pendingWrites (step (AddDocSettled False) t) = pendingWrites t - 1"
    by (simp add: step_AddDocSettled addDocSettled_def logged_def)
  have 3: "(\<exists>q. sendPayload s = Some q) \<longleftrightarrow>
        dbRef s \<noteq> None \<and> truthy (userId s) \<and> trim (newMessage s) \<noteq> []"
    using sendPayload_None_iff[of s] by auto
  from 1 2 3 show ?thesis by blast
qed

theorem submit_settles_witness:
  "sendPayload draftedHi = Some hiPayload
   \<and> newMessage draftedHi = utf16 '' hi ''
   \<and> writes (step Send draftedHi) = [hiPayload]
   \<and> mounted (step Send draftedHi) \<and> 0 < pendingWrites (step Send draftedHi)
   \<and> newMessage (step (AddDocSettled True) (step Send draftedHi)) = []
   \<and> newMessage (step (AddDocSettled False) (step Send draftedHi)) = utf16 '' hi ''
   \<and> writes (step (AddDocSettled False) (step Send draftedHi)) = [hiPayload]
   \<and> console (step (AddDocSettled False) (step Send draftedHi)) = [SendErrorLog]"
proof -
  have a: "sendPayload draftedHi = Some hiPayload"
    by (simp add: draftedHi_def hiPayload_def eval_defs)
  have b: "mounted draftedHi" "newMessage draftedHi = utf16 '' hi ''" "writes draftedHi = []"
    "console draftedHi = []" "pendingWrites draftedHi = 0"
    by (simp_all add: draftedHi_def eval_defs)
  have s: "step Send draftedHi = draftedHi\<lparr> writes := [hiPayload], pendingWrites := Suc 0 \<rparr>"
    using a b by (simp add: step_Send handleSend_issues)
  have c: "mounted (step Send draftedHi)" "0 < pendingWrites (step Send draftedHi)"
    "newMessage (step Send draftedHi) = utf16 '' hi ''" "console (step Send draftedHi) = []"
    "writes (step Send draftedHi) = [hiPayload]"
    using b by (simp_all add: s)
  from a b c submit_settles[of draftedHi hiPayload "step Send draftedHi"]
  show ?thesis by simp
qed

text \<open>
  C5. The write that a send issues carries the current \<open>userId\<close>, the trimmed draft
  and the server-timestamp sentinel. Only a send adds a write, so every write of every
  run asks for a server timestamp and has a non-empty text and author.
\<close>

theorem submit_payload:
  "(sendPayload s = Some p \<longrightarrow>
      userId s = Some (w_userId p) \<and> w_text p = trim (newMessage s)
      \<and> w_timestamp p = ServerTimestamp)
   \<and> (writes (step e s) = writes s
       \<or> (e = Send \<and> (\<exists>q. sendPayload s = Some q \<and> writes (step e s) = writes s @ [q])))
   \<and> (\<forall>q \<in> set (writes (run w io es)).
        w_timestamp q = ServerTimestamp \<and> w_text q \<noteq> [] \<and> w_userId q \<noteq> [])"
proof -
  have "writesInv (run w io es)" by (rule writesInv_run)
  then have "\<forall>q \<in> set (writes (run w io es)).
        w_timestamp q = ServerTimestamp \<and> w_text q \<noteq> [] \<and> w_userId q \<noteq> []"
    by (simp add: writesInv_def)
  with sendPayload_Some[of s p] step_writes[of e s] show ?thesis by blast
qed

theorem submit_payload_witness:
  "sendPayload draftedHi = Some hiPayload
   \<and> userId draftedHi = Some visitor \<and> w_userId hiPayload = visitor
   \<and> trim (newMessage draftedHi) = utf16 ''hi'' \<and> w_text hiPayload = utf16 ''hi''
   \<and> w_timestamp hiPayload = ServerTimestamp
   \<and> writes (run None InitOk [AuthStateChanged (Some visitor) Subscribed, Typed (utf16 '' hi ''), Send])
       = [hiPayload]"
proof -
  have a: "sendPayload draftedHi = Some hiPayload"
    by (simp add: draftedHi_def hiPayload_def eval_defs)
  have b: "writes (run None InitOk [AuthStateChanged (Some visitor) Subscribed, Typed (utf16 '' hi ''), Send])
       = [hiPayload]"
    by (simp add: hiPayload_def eval_defs)
  have c: "w_userId hiPayload = visitor" "w_text hiPayload = utf16 ''hi''"
    by (simp_all add: hiPayload_def)
  from a b c submit_payload[where s = draftedHi and p = hiPayload and e = Send and w = None and io = InitOk
      and es = "[AuthStateChanged (Some visitor) Subscribed, Typed (utf16 '' hi ''), Send]"]
  show ?thesis by simp
qed

text \<open>
  C10. While the document-store handle is not set a send is a no-op, also with an
  identity and a draft. The handle is not set after mounting, no callback sets it, and a
  step sets it only by running the subscription effect.
\<close>

theorem submit_without_db:
  "(dbRef s = None \<longrightarrow> handleSend s = s \<and> step Send s = s)
   \<and> dbRef (mount w io) = None
   \<and> dbRef (handle e s) = dbRef s
   \<and> (dbRef (step e s) \<noteq> dbRef s \<longrightarrow>
        depsChanged s (handle e s) \<and> dbRef (step e s) = Some Firestore)"
proof -
  have 1: "dbRef s = None \<longrightarrow> handleSend s = s \<and> step Send s = s"
    by (simp add: sendPayload_None_iff handleSend_noop step_Send)
  have 2: "dbRef (mount w io) = None"
    by (cases io) (simp_all add: mount_def initial_def doAuth_def logged_def)
  from 1 2 handle_dbRef[of e s] step_dbRef[of e s] show ?thesis by blast
qed

theorem submit_without_db_witness:
  "dbRef signedInWithoutDb = None
   \<and> userId signedInWithoutDb = Some visitor
   \<and> status signedInWithoutDb = Online
   \<and> trim (newMessage signedInWithoutDb) = utf16 ''hi''
   \<and> handleSend signedInWithoutDb = signedInWithoutDb
   \<and> step Send signedInWithoutDb = signedInWithoutDb
   \<and> dbRef (mount None InitOk) = None
   \<and> dbRef (step (AuthStateChanged (Some visitor) Subscribed) (mount None InitOk)) = Some Firestore
   \<and> depsChanged (mount None InitOk)
        (handle (AuthStateChanged (Some visitor) Subscribed) (mount None InitOk))"
proof -
  have a: "dbRef signedInWithoutDb = None" "userId signedInWithoutDb = Some visitor"
    "status signedInWithoutDb = Online" "trim (newMessage signedInWithoutDb) = utf16 ''hi''"
    by (simp_all add: signedInWithoutDb_def eval_defs)
  have b: "dbRef (step (AuthStateChanged (Some visitor) Subscribed) (mount None InitOk)) = Some Firestore"
    by (simp add: eval_defs)
  have c: "dbRef (mount None InitOk) = None"
    by (simp add: eval_defs)
  from b c have d: "dbRef (step (AuthStateChanged (Some visitor) Subscribed) (mount None InitOk))
      \<noteq> dbRef (mount None InitOk)" by simp
  from a(1) submit_without_db[where s = signedInWithoutDb and w = None and io = InitOk and e = Send]
  have e: "handleSend signedInWithoutDb = signedInWithoutDb \<and> step Send signedInWithoutDb = signedInWithoutDb"
    by blast
  from d submit_without_db[where s = "mount None InitOk" and w = None and io = InitOk
      and e = "AuthStateChanged (Some visitor) Subscribed"]
  have f: "depsChanged (mount None InitOk)
        (handle (AuthStateChanged (Some visitor) Subscribed) (mount None InitOk))"
    by blast
  from a b c e f show ?thesis by blast
qed


end
